theory Spec2Isabelle
  imports Main
begin

unbundle bit_operations_syntax

section \<open>Tick arithmetic\<close>

text \<open>
  \<^verbatim>\<open>_TICKS_PERIOD = 1 << 29\<close>, \<^verbatim>\<open>_TICKS_MAX = _TICKS_PERIOD - 1\<close>.
  Python integers are unbounded, so ticks are \<open>int\<close>; \<^verbatim>\<open>&\<close> on a negative
  Python integer works on its infinite two's complement, as \<open>AND\<close> on \<open>int\<close> does.
\<close>

definition TICKS_PERIOD :: int where
  "TICKS_PERIOD = push_bit 29 1"

definition TICKS_MAX :: int where
  "TICKS_MAX = TICKS_PERIOD - 1"

definition timestamp_diff :: "int \<Rightarrow> int \<Rightarrow> int" where
  "timestamp_diff time1 time2 = (time1 - time2) AND TICKS_MAX"

section \<open>Errors and Python built-ins\<close>

text \<open>
  The exceptions the library can meet: \<^verbatim>\<open>ValueError\<close> (raised by the library and by
  \<^verbatim>\<open>int()\<close>), \<^verbatim>\<open>TypeError\<close> (arithmetic on \<^verbatim>\<open>None\<close>) and
  \<^verbatim>\<open>IndexError\<close> (list index out of range). A function that can raise returns
  \<open>error + 'a\<close>, with \<open>Inl\<close> for the exception.
\<close>

datatype error = ValueError | TypeError | IndexError

text \<open>\<^verbatim>\<open>str(n)\<close> for an integer, as used by the f-strings \<^verbatim>\<open>f"{num}_MULTI_PRESS"\<close>.\<close>

definition digit_char :: "nat \<Rightarrow> char" where
  "digit_char d = char_of (48 + d)"

fun str_nat :: "nat \<Rightarrow> string" where
  "str_nat n = (if n < 10 then [digit_char n] else str_nat (n div 10) @ [digit_char (n mod 10)])"

declare str_nat.simps [simp del]

definition str_int :: "int \<Rightarrow> string" where
  "str_int i = (if i < 0 then CHR ''-'' # str_nat (nat (- i)) else str_nat (nat i))"

text \<open>
  \<^verbatim>\<open>int(s)\<close> on a string of ASCII characters: surrounding whitespace is stripped, one
  sign is allowed, then at least one decimal digit and nothing else; anything else is a
  \<^verbatim>\<open>ValueError\<close>. (Python also allows single underscores between digits; the
  library only passes \<^verbatim>\<open>action.split("_")[0]\<close>, which has no underscore.)
\<close>

definition is_digit :: "char \<Rightarrow> bool" where
  "is_digit c = (48 \<le> (of_char c :: nat) \<and> (of_char c :: nat) \<le> 57)"

definition digit_val :: "char \<Rightarrow> nat" where
  "digit_val c = of_char c - 48"

definition is_space :: "char \<Rightarrow> bool" where
  "is_space c = (let n = (of_char c :: nat) in (9 \<le> n \<and> n \<le> 13) \<or> (28 \<le> n \<and> n \<le> 32))"

definition strip :: "string \<Rightarrow> string" where
  "strip s = rev (dropWhile is_space (rev (dropWhile is_space s)))"

definition digits_value :: "string \<Rightarrow> nat" where
  "digits_value ds = foldl (\<lambda>acc c. 10 * acc + digit_val c) 0 ds"

definition parse_digits :: "string \<Rightarrow> nat option" where
  "parse_digits ds = (if ds \<noteq> [] \<and> list_all is_digit ds then Some (digits_value ds) else None)"

definition py_int :: "string \<Rightarrow> error + int" where
  "py_int s =
     (case strip s of
        [] \<Rightarrow> Inl ValueError
      | c # r \<Rightarrow>
          if c = CHR ''-'' then
            (case parse_digits r of None \<Rightarrow> Inl ValueError | Some n \<Rightarrow> Inr (- int n))
          else if c = CHR ''+'' then
            (case parse_digits r of None \<Rightarrow> Inl ValueError | Some n \<Rightarrow> Inr (int n))
          else
            (case parse_digits (c # r) of None \<Rightarrow> Inl ValueError | Some n \<Rightarrow> Inr (int n)))"

text \<open>\<^verbatim>\<open>s.endswith(suffix)\<close> and \<^verbatim>\<open>s.split("_")[0]\<close>: the part before the first underscore.\<close>

definition endswith :: "string \<Rightarrow> string \<Rightarrow> bool" where
  "endswith s suf = (length suf \<le> length s \<and> drop (length s - length suf) s = suf)"

definition split_first :: "string \<Rightarrow> string" where
  "split_first s = takeWhile (\<lambda>c. c \<noteq> CHR ''_'') s"

section \<open>Configuration and button state\<close>

text \<open>
  \<^verbatim>\<open>ButtonInitConfig\<close>, with the defaults of its constructor. The two durations are
  annotated \<^verbatim>\<open>float\<close> in the source and default to integers; they are compared with
  tick differences only, and are modelled as integer tick counts.
\<close>

record button_init_config =
  cfg_enable_multi_press :: bool
  cfg_multi_press_interval :: int
  cfg_long_press_threshold :: int
  cfg_max_multi_press :: int

definition ButtonInitConfig_default :: button_init_config where
  "ButtonInitConfig_default =
     \<lparr>cfg_enable_multi_press = True, cfg_multi_press_interval = 175,
      cfg_long_press_threshold = 1000, cfg_max_multi_press = 2\<rparr>"

text \<open>\<^verbatim>\<open>Button\<close>: the copied configuration and the five mutable fields.\<close>

record button =
  button_number :: int
  enable_multi_press :: bool
  long_press_threshold :: int
  max_multi_press :: int
  multi_press_interval :: int
  last_press_time :: "int option"
  press_count :: int
  press_start_time :: int
  is_holding :: bool
  is_pressed :: bool

definition Button_init :: "int \<Rightarrow> button_init_config \<Rightarrow> error + button" where
  "Button_init n config =
     (if n < 0 then Inl ValueError
      else Inr \<lparr>button_number = n,
                enable_multi_press = cfg_enable_multi_press config,
                long_press_threshold = cfg_long_press_threshold config,
                max_multi_press = cfg_max_multi_press config,
                multi_press_interval = cfg_multi_press_interval config,
                last_press_time = None,
                press_count = 0,
                press_start_time = 0,
                is_holding = False,
                is_pressed = False\<rparr>)"

text \<open>
  \<^verbatim>\<open>Button._check_multi_press_timeout\<close>. The \<^verbatim>\<open>and\<close> chain is evaluated left to
  right, so the difference is computed only when the first two tests hold; with
  \<^verbatim>\<open>_last_press_time\<close> still \<^verbatim>\<open>None\<close> the subtraction raises \<^verbatim>\<open>TypeError\<close>.
\<close>

definition check_multi_press_timeout :: "button \<Rightarrow> int \<Rightarrow> error + (int option \<times> button)" where
  "check_multi_press_timeout b current_time =
     (if 0 < press_count b \<and> \<not> is_pressed b then
        (case last_press_time b of
           None \<Rightarrow> Inl TypeError
         | Some t \<Rightarrow>
             if multi_press_interval b < timestamp_diff current_time t
             then Inr (Some (press_count b), b\<lparr>last_press_time := None, press_count := 0\<rparr>)
             else Inr (None, b))
      else Inr (None, b))"

text \<open>\<^verbatim>\<open>Button._is_held\<close>.\<close>

definition is_held :: "button \<Rightarrow> int \<Rightarrow> bool \<times> button" where
  "is_held b current_time =
     (if \<not> is_holding b \<and> is_pressed b
         \<and> long_press_threshold b \<le> timestamp_diff current_time (press_start_time b)
      then (True, b\<lparr>is_holding := True\<rparr>)
      else (False, b))"

section \<open>Classified inputs\<close>

text \<open>
  \<^verbatim>\<open>ButtonInput\<close>: the action is kept as the string the setter stored. The setter
  returns the stored string, or \<^verbatim>\<open>ValueError\<close>.
\<close>

record button_input =
  action :: string
  input_button_number :: int
  input_timestamp :: int

definition set_action :: "string \<Rightarrow> error + string" where
  "set_action a =
     (if a = ''SHORT_PRESS'' \<or> a = ''LONG_PRESS'' \<or> a = ''HOLD'' then Inr a
      else
        let a1 = (if a = ''DOUBLE_PRESS'' then ''2_MULTI_PRESS'' else a) in
        if \<not> endswith a1 ''_MULTI_PRESS'' then Inl ValueError
        else
          (case py_int (split_first a1) of
             Inl e \<Rightarrow> Inl ValueError
           | Inr num \<Rightarrow>
               if num < 1 then Inl ValueError
               else Inr (if num = 1 then ''SHORT_PRESS'' else a1)))"

definition ButtonInput_init :: "string \<Rightarrow> int \<Rightarrow> int \<Rightarrow> error + button_input" where
  "ButtonInput_init a n t =
     (case set_action a of
        Inl e \<Rightarrow> Inl e
      | Inr a' \<Rightarrow> Inr \<lparr>action = a', input_button_number = n, input_timestamp = t\<rparr>)"

text \<open>
  \<^verbatim>\<open>ButtonInput.__eq__\<close> and \<^verbatim>\<open>__hash__\<close>. The other operand is any Python
  object; the built-in hash of a tuple is a parameter.
\<close>

datatype py_object = ButtonInputObj button_input | OtherObj

definition ButtonInput_eq :: "button_input \<Rightarrow> py_object \<Rightarrow> bool" where
  "ButtonInput_eq self other =
     (case other of
        ButtonInputObj x \<Rightarrow> action self = action x \<and> input_button_number self = input_button_number x
      | OtherObj \<Rightarrow> False)"

definition ButtonInput_hash :: "(string \<times> int \<Rightarrow> int) \<Rightarrow> button_input \<Rightarrow> int" where
  "ButtonInput_hash hash self = hash (action self, input_button_number self)"

section \<open>The handler\<close>

text \<open>
  A result set of \<^verbatim>\<open>ButtonInput\<close> values is a list in insertion order;
  \<^verbatim>\<open>set.add\<close> leaves the set as it is when it already holds an equal element.
\<close>

definition set_add :: "button_input \<Rightarrow> button_input list \<Rightarrow> button_input list" where
  "set_add x xs = (if list_ex (\<lambda>y. ButtonInput_eq x (ButtonInputObj y)) xs then xs else xs @ [x])"

text \<open>A \<^verbatim>\<open>keypad.Event\<close>, and the handler: its buttons and the queue it reads.\<close>

record event =
  key_number :: int
  pressed :: bool
  timestamp :: int

record button_handler =
  buttons :: "button list"
  event_queue :: "event list"

text \<open>
  \<^verbatim>\<open>ButtonHandler.__init__\<close>: \<^verbatim>\<open>config\<close> is a dictionary, and a button whose
  number is not a key gets the default configuration.
\<close>

fun make_buttons :: "(int \<rightharpoonup> button_init_config) \<Rightarrow> int list \<Rightarrow> error + button list" where
  "make_buttons config [] = Inr []"
| "make_buttons config (i # is) =
     (case Button_init i (case config i of None \<Rightarrow> ButtonInitConfig_default | Some c \<Rightarrow> c) of
        Inl e \<Rightarrow> Inl e
      | Inr b \<Rightarrow> (case make_buttons config is of Inl e \<Rightarrow> Inl e | Inr bs \<Rightarrow> Inr (b # bs)))"

definition ButtonHandler_init ::
  "event list \<Rightarrow> int \<Rightarrow> (int \<rightharpoonup> button_init_config) \<Rightarrow> error + button_handler" where
  "ButtonHandler_init queue button_amount config =
     (if button_amount < 1 then Inl ValueError
      else
        (case make_buttons config [0..button_amount - 1] of
           Inl e \<Rightarrow> Inl e
         | Inr bs \<Rightarrow> Inr \<lparr>buttons = bs, event_queue = queue\<rparr>))"

text \<open>
  The body of \<^verbatim>\<open>ButtonHandler._handle_event\<close> once the button has been looked up.
  A press returns \<^verbatim>\<open>None\<close> by falling off the end; the short release that may still
  be followed by more presses returns \<^verbatim>\<open>None\<close> before the two resets.
\<close>

definition handle_event_button :: "button \<Rightarrow> event \<Rightarrow> error + (button_input option \<times> button)" where
  "handle_event_button button ev =
     (if pressed ev then
        let b1 = button\<lparr>is_pressed := True, press_start_time := timestamp ev\<rparr>;
            b2 = (if press_count b1 < max_multi_press b1
                  then b1\<lparr>last_press_time := Some (timestamp ev)\<rparr> else b1)
        in Inr (None, b2\<lparr>press_count := press_count b2 + 1\<rparr>)
      else
        let b1 = button\<lparr>is_pressed := False\<rparr> in
        if timestamp_diff (timestamp ev) (press_start_time b1) < long_press_threshold b1 then
          if \<not> enable_multi_press b1 then
            (case ButtonInput_init ''SHORT_PRESS'' (key_number ev) (timestamp ev) of
               Inl e \<Rightarrow> Inl e
             | Inr i \<Rightarrow> Inr (Some i, b1\<lparr>last_press_time := None, press_count := 0\<rparr>))
          else if press_count b1 = max_multi_press b1 then
            (case ButtonInput_init (str_int (max_multi_press b1) @ ''_MULTI_PRESS'')
                    (key_number ev) (timestamp ev) of
               Inl e \<Rightarrow> Inl e
             | Inr i \<Rightarrow> Inr (Some i, b1\<lparr>last_press_time := None, press_count := 0\<rparr>))
          else Inr (None, b1)
        else
          (case ButtonInput_init ''LONG_PRESS'' (key_number ev) (timestamp ev) of
             Inl e \<Rightarrow> Inl e
           | Inr i \<Rightarrow>
               Inr (Some i, b1\<lparr>is_holding := False, last_press_time := None, press_count := 0\<rparr>)))"

text \<open>
  \<^verbatim>\<open>self._buttons[event.key_number]\<close>: a negative index counts from the end, and an
  index outside the list raises \<^verbatim>\<open>IndexError\<close>.
\<close>

definition button_index :: "button list \<Rightarrow> int \<Rightarrow> error + nat" where
  "button_index bs k =
     (if 0 \<le> k \<and> k < int (length bs) then Inr (nat k)
      else if k < 0 \<and> - int (length bs) \<le> k then Inr (nat (int (length bs) + k))
      else Inl IndexError)"

definition handle_event :: "button_handler \<Rightarrow> event \<Rightarrow> error + (button_input option \<times> button_handler)" where
  "handle_event h ev =
     (case button_index (buttons h) (key_number ev) of
        Inl e \<Rightarrow> Inl e
      | Inr n \<Rightarrow>
          (case handle_event_button (buttons h ! n) ev of
             Inl e \<Rightarrow> Inl e
           | Inr (out, b') \<Rightarrow> Inr (out, h\<lparr>buttons := (buttons h)[n := b']\<rparr>)))"

text \<open>
  The \<^verbatim>\<open>else\<close> branch of the loop body of \<^verbatim>\<open>_handle_buttons\<close>: the timeout
  check and, when it returns a count that is truthy, the input built from it.
\<close>

definition report_timeout :: "int \<Rightarrow> button \<Rightarrow> button_input list \<Rightarrow> error + (button_input list \<times> button)" where
  "report_timeout current_time b inputs =
     (case check_multi_press_timeout b current_time of
        Inl e \<Rightarrow> Inl e
      | Inr (None, b') \<Rightarrow> Inr (inputs, b')
      | Inr (Some num, b') \<Rightarrow>
          if num \<noteq> 0 then
            (case ButtonInput_init (str_int num @ ''_MULTI_PRESS'') (button_number b') current_time of
               Inl e \<Rightarrow> Inl e
             | Inr i \<Rightarrow> Inr (set_add i inputs, b'))
          else Inr (inputs, b'))"

text \<open>The loop body of \<^verbatim>\<open>_handle_buttons\<close> for one button, and the loop.\<close>

definition handle_button :: "int \<Rightarrow> button \<Rightarrow> button_input list \<Rightarrow> error + (button_input list \<times> button)" where
  "handle_button current_time b inputs =
     (case is_held b current_time of
        (True, b') \<Rightarrow>
          (case ButtonInput_init ''HOLD'' (button_number b') current_time of
             Inl e \<Rightarrow> Inl e
           | Inr i \<Rightarrow> Inr (set_add i inputs, b'))
      | (False, b') \<Rightarrow> report_timeout current_time b' inputs)"

fun handle_buttons_loop ::
  "int \<Rightarrow> button list \<Rightarrow> button_input list \<Rightarrow> error + (button_input list \<times> button list)" where
  "handle_buttons_loop current_time [] inputs = Inr (inputs, [])"
| "handle_buttons_loop current_time (b # bs) inputs =
     (case handle_button current_time b inputs of
        Inl e \<Rightarrow> Inl e
      | Inr (inputs', b') \<Rightarrow>
          (case handle_buttons_loop current_time bs inputs' of
             Inl e \<Rightarrow> Inl e
           | Inr (inputs'', bs') \<Rightarrow> Inr (inputs'', b' # bs')))"

text \<open>\<^verbatim>\<open>_handle_buttons\<close>; the clock reading \<^verbatim>\<open>ticks_ms()\<close> is the argument.\<close>

definition handle_buttons :: "int \<Rightarrow> button_handler \<Rightarrow> error + (button_input list \<times> button_handler)" where
  "handle_buttons current_time h =
     (case handle_buttons_loop current_time (buttons h) [] of
        Inl e \<Rightarrow> Inl e
      | Inr (inputs, bs) \<Rightarrow> Inr (inputs, h\<lparr>buttons := bs\<rparr>))"

text \<open>
  The \<^verbatim>\<open>while\<close> loop of \<^verbatim>\<open>update\<close>:
  \<^verbatim>\<open>
  i = 0
  while i < len(event_queue):
      event_queue.get_into(event)
      input_ = self._handle_event(event)
      if input_:
          inputs.add(input_)
  \<close>
  \<^verbatim>\<open>i\<close> is never assigned again, and \<^verbatim>\<open>len(event_queue)\<close> is read anew before
  every iteration. The queue is filled by the scanner while the loop runs: \<open>arrivals k\<close>
  are the events the scanner appends during iteration \<open>k\<close>. The loop returns the result
  set, the handler and the number of events it has consumed; it may run forever, and then
  the value is \<open>None\<close>. A \<^verbatim>\<open>ButtonInput\<close> object is always truthy.
  \<^verbatim>\<open>get_into\<close> takes the oldest event off the queue; \<^verbatim>\<open>update\<close> starts the loop
  with \<^verbatim>\<open>i = 0\<close>, so the body never runs on an empty queue, and the model gives that
  case, which cannot occur, an error.
\<close>

partial_function (option) drain ::
  "(nat \<Rightarrow> event list) \<Rightarrow> int \<Rightarrow> nat \<Rightarrow> button_handler \<Rightarrow> button_input list
     \<Rightarrow> (error + (button_input list \<times> button_handler \<times> nat)) option" where
  "drain arrivals i k h inputs =
     (if i < int (length (event_queue h)) then
        (case event_queue h of
           [] \<Rightarrow> Some (Inl IndexError)
         | ev # rest \<Rightarrow>
             (case handle_event (h\<lparr>event_queue := rest\<rparr>) ev of
                Inl e \<Rightarrow> Some (Inl e)
              | Inr (out, h') \<Rightarrow>
                  drain arrivals i (Suc k) (h'\<lparr>event_queue := event_queue h' @ arrivals k\<rparr>)
                    (case out of None \<Rightarrow> inputs | Some x \<Rightarrow> set_add x inputs)))
      else Some (Inr (inputs, h, k)))"

declare drain.simps [code]

text \<open>
  \<^verbatim>\<open>ButtonHandler.update\<close>: the time-triggered phase, whose result set is the
  starting set of the loop, then the loop with \<^verbatim>\<open>i = 0\<close>. The third component of
  the result is the number of events the call has consumed.
\<close>

definition update ::
  "(nat \<Rightarrow> event list) \<Rightarrow> int \<Rightarrow> button_handler
     \<Rightarrow> (error + (button_input list \<times> button_handler \<times> nat)) option" where
  "update arrivals current_time h =
     (case handle_buttons current_time h of
        Inl e \<Rightarrow> Some (Inl e)
      | Inr (inputs, h') \<Rightarrow> drain arrivals 0 0 h' inputs)"

section \<open>Notions of the specification and example inputs\<close>

text \<open>
  The action the specification assigns to a count of presses: count 1 is
  \<^verbatim>\<open>SHORT_PRESS\<close>, a count \<open>n\<close> above it is the multi-press of \<open>n\<close>, which the
  source writes \<^verbatim>\<open>"<n>_MULTI_PRESS"\<close>. Stated from the specification's words, to
  compare with what the setter stores.
\<close>

definition normalized_multi_press :: "int \<Rightarrow> string" where
  "normalized_multi_press n = (if n = 1 then ''SHORT_PRESS'' else str_int n @ ''_MULTI_PRESS'')"

text \<open>
  A button with multi-press enabled, a cap of 2, an interval of 200 and a threshold of
  1000, in its second press, which began at tick 300.
\<close>

definition example_button :: button where
  "example_button =
     \<lparr>button_number = 0, enable_multi_press = True, long_press_threshold = 1000,
      max_multi_press = 2, multi_press_interval = 200, last_press_time = Some 300,
      press_count = 2, press_start_time = 300, is_holding = False, is_pressed = True\<rparr>"

text \<open>The configuration of the specification's examples: interval 200, threshold 1000, cap 2.\<close>

definition spec_config :: button_init_config where
  "spec_config =
     \<lparr>cfg_enable_multi_press = True, cfg_multi_press_interval = 200,
      cfg_long_press_threshold = 1000, cfg_max_multi_press = 2\<rparr>"

text \<open>
  The hold check with its report, as the specification's \<^verbatim>\<open>checkHold(now)\<close>, and the
  time-triggered phase as the specification words it: for a button, run the hold check,
  then the multi-press timeout check, and collect the emissions. Stated from the
  specification, to compare with \<open>handle_button\<close>, which follows the source's if/else.
\<close>

definition report_hold :: "int \<Rightarrow> button \<Rightarrow> button_input list \<Rightarrow> error + (button_input list \<times> button)" where
  "report_hold current_time b inputs =
     (case is_held b current_time of
        (True, b') \<Rightarrow>
          (case ButtonInput_init ''HOLD'' (button_number b') current_time of
             Inl e \<Rightarrow> Inl e
           | Inr i \<Rightarrow> Inr (set_add i inputs, b'))
      | (False, b') \<Rightarrow> Inr (inputs, b'))"

definition handle_button_seq :: "int \<Rightarrow> button \<Rightarrow> button_input list \<Rightarrow> error + (button_input list \<times> button)" where
  "handle_button_seq current_time b inputs =
     (case report_hold current_time b inputs of
        Inl e \<Rightarrow> Inl e
      | Inr (inputs', b') \<Rightarrow> report_timeout current_time b' inputs')"

text \<open>
  Sequences of operations on one button: a raw event, a hold check alone, a timeout check
  alone, or the loop body of \<^verbatim>\<open>_handle_buttons\<close> (\<open>Poll\<close>). A run returns what was
  emitted, in order, and the final state.
\<close>

datatype op = Event event | HoldCheck int | TimeoutCheck int | Poll int

fun apply_op :: "button \<Rightarrow> op \<Rightarrow> error + (button_input list \<times> button)" where
  "apply_op b (Event ev) =
     (case handle_event_button b ev of
        Inl e \<Rightarrow> Inl e
      | Inr (None, b') \<Rightarrow> Inr ([], b')
      | Inr (Some x, b') \<Rightarrow> Inr ([x], b'))"
| "apply_op b (HoldCheck now) = report_hold now b []"
| "apply_op b (TimeoutCheck now) = report_timeout now b []"
| "apply_op b (Poll now) = handle_button now b []"

fun run_ops :: "button \<Rightarrow> op list \<Rightarrow> error + (button_input list \<times> button)" where
  "run_ops b [] = Inr ([], b)"
| "run_ops b (x # xs) =
     (case apply_op b x of
        Inl e \<Rightarrow> Inl e
      | Inr (out, b') \<Rightarrow>
          (case run_ops b' xs of Inl e \<Rightarrow> Inl e | Inr (outs, b'') \<Rightarrow> Inr (out @ outs, b'')))"

definition run_button :: "int \<Rightarrow> button_init_config \<Rightarrow> op list \<Rightarrow> error + (button_input list \<times> button)" where
  "run_button n config ops =
     (case Button_init n config of Inl e \<Rightarrow> Inl e | Inr b \<Rightarrow> run_ops b ops)"

definition press_at :: "int \<Rightarrow> op" where
  "press_at t = Event \<lparr>key_number = 0, pressed = True, timestamp = t\<rparr>"

definition release_at :: "int \<Rightarrow> op" where
  "release_at t = Event \<lparr>key_number = 0, pressed = False, timestamp = t\<rparr>"

text \<open>The pending multi-press run has its reference time.\<close>

definition count_has_time :: "button \<Rightarrow> bool" where
  "count_has_time b = (0 < press_count b \<longrightarrow> last_press_time b \<noteq> None)"

text \<open>
  A handler with one button of the default configuration and an empty queue, as
  \<^verbatim>\<open>ButtonHandler(scanner.events)\<close> builds it in the example program.
\<close>

definition example_handler :: button_handler where
  "example_handler =
     \<lparr>buttons =
        [\<lparr>button_number = 0, enable_multi_press = True, long_press_threshold = 1000,
          max_multi_press = 2, multi_press_interval = 175, last_press_time = None,
          press_count = 0, press_start_time = 0, is_holding = False, is_pressed = False\<rparr>],
      event_queue = []\<rparr>"

text \<open>
  Two scanners: one that appends nothing while the loop of \<open>update\<close> runs, and one that
  appends a release during the first iteration.
\<close>

definition no_arrivals :: "nat \<Rightarrow> event list" where
  "no_arrivals k = []"

fun late_release :: "nat \<Rightarrow> event list" where
  "late_release 0 = [\<lparr>key_number = 0, pressed = False, timestamp = 50\<rparr>]"
| "late_release (Suc n) = []"

text \<open>
  The application loop of the example program: before each call of \<open>update\<close> at the
  clock reading \<open>now\<close> the scanner has queued \<open>evs\<close>. The run returns the result set of
  every call.
\<close>

fun run_updates ::
  "button_handler \<Rightarrow> (int \<times> event list) list
     \<Rightarrow> (error + (button_input list list \<times> button_handler)) option" where
  "run_updates h [] = Some (Inr ([], h))"
| "run_updates h ((now, evs) # rest) =
     (case update no_arrivals now (h\<lparr>event_queue := event_queue h @ evs\<rparr>) of
        None \<Rightarrow> None
      | Some (Inl e) \<Rightarrow> Some (Inl e)
      | Some (Inr (inputs, h', k)) \<Rightarrow>
          (case run_updates h' rest of
             None \<Rightarrow> None
           | Some (Inl e) \<Rightarrow> Some (Inl e)
           | Some (Inr (outs, h'')) \<Rightarrow> Some (Inr (inputs # outs, h''))))"

text \<open>
  What a finished loop of \<open>update\<close> has consumed, when it started at iteration \<open>k\<close> on
  the handler \<open>h\<close>: every event queued at the start and every event that arrived while
  it ran, leaving the queue empty.
\<close>

definition drained_all ::
  "(nat \<Rightarrow> event list) \<Rightarrow> nat \<Rightarrow> button_handler
     \<Rightarrow> (error + (button_input list \<times> button_handler \<times> nat)) \<Rightarrow> bool" where
  "drained_all arrivals k h r =
     (case r of
        Inl e \<Rightarrow> True
      | Inr (ins, h', k') \<Rightarrow>
          k \<le> k' \<and> k' = k + length (event_queue h) + (\<Sum>j = k..<k'. length (arrivals j))
            \<and> event_queue h' = [])"

section \<open>Results\<close>

lemma TICKS_MAX_mask: "TICKS_MAX = mask 29"
  by (simp add: TICKS_MAX_def TICKS_PERIOD_def mask_eq_exp_minus_1)

lemma timestamp_diff_mod: "timestamp_diff a b = (a - b) mod 2 ^ 29"
  by (simp add: timestamp_diff_def TICKS_MAX_mask take_bit_eq_mod flip: take_bit_eq_mask)

text \<open>
  Claim C6. For all tick values \<open>a\<close> and \<open>b\<close>, \<open>timestamp_diff a b\<close> is
  \<open>(a - b) mod 2 ^ 29\<close> and is not negative; the difference of a tick with itself is 0,
  and across the wrap-around \<open>timestamp_diff 5 (P - 5) = 10\<close> for the period \<open>P = 2 ^ 29\<close>.
\<close>

theorem timestamp_diff_wraps:
  "timestamp_diff a b = (a - b) mod 2 ^ 29
   \<and> 0 \<le> timestamp_diff a b
   \<and> timestamp_diff t t = 0
   \<and> TICKS_PERIOD = 2 ^ 29
   \<and> timestamp_diff 5 (TICKS_PERIOD - 5) = 10"
  by (simp add: timestamp_diff_mod TICKS_PERIOD_def)

lemma of_char_digit_char: "d < 10 \<Longrightarrow> (of_char (digit_char d) :: nat) = 48 + d"
  by (simp add: digit_char_def)

lemma is_digit_digit_char: "d < 10 \<Longrightarrow> is_digit (digit_char d)"
  by (simp add: is_digit_def of_char_digit_char)

lemma digit_val_digit_char: "d < 10 \<Longrightarrow> digit_val (digit_char d) = d"
  by (simp add: digit_val_def of_char_digit_char)

lemma str_nat_not_Nil: "str_nat n \<noteq> []"
  by (subst str_nat.simps) simp

lemma str_nat_digits: "list_all is_digit (str_nat n)"
proof (induction n rule: str_nat.induct)
  case (1 n)
  show ?case
  proof (cases "n < 10")
    case True
    then show ?thesis by (subst str_nat.simps) (simp add: is_digit_digit_char)
  next
    case False
    with 1 show ?thesis by (subst str_nat.simps) (simp add: is_digit_digit_char)
  qed
qed

lemma digits_value_snoc: "digits_value (ds @ [c]) = 10 * digits_value ds + digit_val c"
  by (simp add: digits_value_def)

lemma digits_value_str_nat: "digits_value (str_nat n) = n"
proof (induction n rule: str_nat.induct)
  case (1 n)
  show ?case
  proof (cases "n < 10")
    case True
    then show ?thesis by (subst str_nat.simps) (simp add: digits_value_def digit_val_digit_char)
  next
    case False
    with 1 show ?thesis
      by (subst str_nat.simps) (simp add: digits_value_snoc digit_val_digit_char)
  qed
qed

lemma parse_digits_str_nat: "parse_digits (str_nat n) = Some n"
  by (simp add: parse_digits_def str_nat_not_Nil str_nat_digits digits_value_str_nat)

lemma is_digit_not_space: "is_digit c \<Longrightarrow> \<not> is_space c"
  by (auto simp: is_digit_def is_space_def Let_def)

lemma is_digit_not_special:
  "is_digit c \<Longrightarrow> c \<noteq> CHR ''_'' \<and> c \<noteq> CHR ''-'' \<and> c \<noteq> CHR ''+''"
  by (auto simp: is_digit_def)

lemma strip_digits: "ds \<noteq> [] \<Longrightarrow> list_all is_digit ds \<Longrightarrow> strip ds = ds"
proof -
  assume ne: "ds \<noteq> []" and dg: "list_all is_digit ds"
  from ne dg have "\<not> is_space (hd ds)"
    by (cases ds) (auto simp: is_digit_not_space)
  with ne have a: "dropWhile is_space ds = ds"
    by (cases ds) auto
  from ne dg have "\<not> is_space (last ds)"
    by (metis is_digit_not_space last_in_set list_all_iff)
  with ne have "dropWhile is_space (rev ds) = rev ds"
    by (cases "rev ds") (auto simp: last_rev hd_rev)
  with a show ?thesis by (simp add: strip_def)
qed

lemma py_int_str_nat: "py_int (str_nat n) = Inr (int n)"
proof -
  obtain c r where cr: "str_nat n = c # r"
    using str_nat_not_Nil by (cases "str_nat n") auto
  have "is_digit c" using str_nat_digits [of n] cr by simp
  then have "c \<noteq> CHR ''-''" "c \<noteq> CHR ''+''" using is_digit_not_special by auto
  moreover have "strip (str_nat n) = c # r"
    using strip_digits [OF str_nat_not_Nil str_nat_digits, of n] cr by simp
  moreover have "parse_digits (c # r) = Some n" using parse_digits_str_nat [of n] cr by simp
  ultimately show ?thesis by (simp add: py_int_def)
qed

lemma split_first_digits: "list_all is_digit ds \<Longrightarrow> split_first (ds @ CHR ''_'' # rest) = ds"
proof -
  assume "list_all is_digit ds"
  then have "\<forall>c\<in>set ds. c \<noteq> CHR ''_''"
    by (auto simp: list_all_iff is_digit_not_special)
  then show ?thesis
    by (simp add: split_first_def takeWhile_append2)
qed

lemma endswith_append: "endswith (s @ suf) suf"
  by (simp add: endswith_def)

lemma str_nat_Cons_digit: "\<exists>c r. str_nat n = c # r \<and> is_digit c"
  using str_nat_not_Nil [of n] str_nat_digits [of n] by (cases "str_nat n") auto

lemma set_action_multi_press:
  assumes "1 \<le> n"
  shows "set_action (str_int n @ ''_MULTI_PRESS'') =
           Inr (if n = 1 then ''SHORT_PRESS'' else str_int n @ ''_MULTI_PRESS'')"
proof -
  from assms have s: "str_int n = str_nat (nat n)" by (simp add: str_int_def)
  obtain c r where cr: "str_nat (nat n) = c # r" and dc: "is_digit c"
    using str_nat_Cons_digit by blast
  have c48: "48 \<le> (of_char c :: nat)" "(of_char c :: nat) \<le> 57" using dc by (auto simp: is_digit_def)
  have ne: "c \<noteq> CHR ''S''" "c \<noteq> CHR ''L''" "c \<noteq> CHR ''H''" "c \<noteq> CHR ''D''"
    using c48 by auto
  have sf: "split_first (str_nat (nat n) @ ''_MULTI_PRESS'') = str_nat (nat n)"
    using split_first_digits [OF str_nat_digits] by simp
  have pi: "py_int (str_nat (nat n)) = Inr n" using assms by (simp add: py_int_str_nat)
  have ew: "endswith (str_nat (nat n) @ ''_MULTI_PRESS'') ''_MULTI_PRESS''" by (rule endswith_append)
  show ?thesis
    unfolding set_action_def s
    using ne assms by (simp add: cr [symmetric] Let_def sf pi ew del: append.simps)
qed

lemma set_action_names:
  "set_action ''SHORT_PRESS'' = Inr ''SHORT_PRESS''"
  "set_action ''LONG_PRESS'' = Inr ''LONG_PRESS''"
  "set_action ''HOLD'' = Inr ''HOLD''"
  by (simp_all add: set_action_def)

lemma ButtonInput_init_multi_press:
  "1 \<le> n \<Longrightarrow> ButtonInput_init (str_int n @ ''_MULTI_PRESS'') k t =
     Inr \<lparr>action = normalized_multi_press n, input_button_number = k, input_timestamp = t\<rparr>"
  by (simp add: ButtonInput_init_def set_action_multi_press normalized_multi_press_def del: append.simps)

lemma ButtonInput_init_names:
  "ButtonInput_init ''SHORT_PRESS'' k t = Inr \<lparr>action = ''SHORT_PRESS'', input_button_number = k, input_timestamp = t\<rparr>"
  "ButtonInput_init ''LONG_PRESS'' k t = Inr \<lparr>action = ''LONG_PRESS'', input_button_number = k, input_timestamp = t\<rparr>"
  "ButtonInput_init ''HOLD'' k t = Inr \<lparr>action = ''HOLD'', input_button_number = k, input_timestamp = t\<rparr>"
  by (simp_all add: ButtonInput_init_def set_action_names)

lemma str_int_small: "str_int 1 = ''1''" "str_int 2 = ''2''" "str_int 3 = ''3''"
  by code_simp+

subsection \<open>Actions and classified inputs\<close>

lemma set_action_spec_examples:
  "set_action ''DOUBLE_PRESS'' = Inr ''2_MULTI_PRESS''"
  "set_action ''1_MULTI_PRESS'' = Inr ''SHORT_PRESS''"
  "set_action ''0_MULTI_PRESS'' = Inl ValueError"
  "set_action ''-1_MULTI_PRESS'' = Inl ValueError"
  "set_action ''3.0_MULTI_PRESS'' = Inl ValueError"
  "set_action ''_MULTI_PRESS'' = Inl ValueError"
  by code_simp+

text \<open>
  Claim C7. Constructing an action succeeds exactly for the three plain names, for
  \<^verbatim>\<open>DOUBLE_PRESS\<close> and for \<^verbatim>\<open>"<N>_MULTI_PRESS"\<close> with \<open>N\<close> a positive integer,
  and every other input fails. The setter does not do this: it tests only the end of the
  string and the text before the first underscore, so \<^verbatim>\<open>"2_X_MULTI_PRESS"\<close> is
  accepted and stored as it is, an action that is none of the canonical forms.
\<close>

theorem set_action_accepts_inner_text:
  "ButtonInput_init ''2_X_MULTI_PRESS'' 0 0 =
     Inr \<lparr>action = ''2_X_MULTI_PRESS'', input_button_number = 0, input_timestamp = 0\<rparr>"
  by code_simp

text \<open>
  Claim C9. Two classified inputs are equal exactly when they have the same action and
  the same button number, whatever their timestamps, and equal inputs have equal hashes;
  the double press on button 3 at tick 10 equals the one at tick 9999.
\<close>

theorem ButtonInput_eq_ignores_timestamp:
  "(ButtonInput_eq x (ButtonInputObj y) \<longleftrightarrow>
      action x = action y \<and> input_button_number x = input_button_number y)
   \<and> ButtonInput_eq (x\<lparr>input_timestamp := t\<rparr>) (ButtonInputObj (y\<lparr>input_timestamp := t'\<rparr>)) =
       ButtonInput_eq x (ButtonInputObj y)
   \<and> (ButtonInput_eq x (ButtonInputObj y) \<longrightarrow> ButtonInput_hash hash x = ButtonInput_hash hash y)
   \<and> ButtonInput_init ''2_MULTI_PRESS'' 3 10 =
       Inr \<lparr>action = ''2_MULTI_PRESS'', input_button_number = 3, input_timestamp = 10\<rparr>
   \<and> ButtonInput_init ''DOUBLE_PRESS'' 3 9999 =
       Inr \<lparr>action = ''2_MULTI_PRESS'', input_button_number = 3, input_timestamp = 9999\<rparr>
   \<and> ButtonInput_eq \<lparr>action = ''2_MULTI_PRESS'', input_button_number = 3, input_timestamp = 10\<rparr>
        (ButtonInputObj \<lparr>action = ''2_MULTI_PRESS'', input_button_number = 3, input_timestamp = 9999\<rparr>)"
proof -
  have "ButtonInput_init ''2_MULTI_PRESS'' 3 10 =
       Inr \<lparr>action = ''2_MULTI_PRESS'', input_button_number = 3, input_timestamp = 10\<rparr>"
    by code_simp
  moreover have "ButtonInput_init ''DOUBLE_PRESS'' 3 9999 =
       Inr \<lparr>action = ''2_MULTI_PRESS'', input_button_number = 3, input_timestamp = 9999\<rparr>"
    by code_simp
  ultimately show ?thesis
    by (simp add: ButtonInput_eq_def ButtonInput_hash_def)
qed

theorem ButtonInput_eq_ignores_timestamp_witness:
  "ButtonInput_eq \<lparr>action = ''HOLD'', input_button_number = 2, input_timestamp = 10\<rparr>
     (ButtonInputObj \<lparr>action = ''HOLD'', input_button_number = 2, input_timestamp = 77\<rparr>)
   \<and> ButtonInput_hash (\<lambda>p. int (length (fst p)) + snd p)
        \<lparr>action = ''HOLD'', input_button_number = 2, input_timestamp = 10\<rparr> =
      ButtonInput_hash (\<lambda>p. int (length (fst p)) + snd p)
        \<lparr>action = ''HOLD'', input_button_number = 2, input_timestamp = 77\<rparr>"
  using ButtonInput_eq_ignores_timestamp
    [of "\<lparr>action = ''HOLD'', input_button_number = 2, input_timestamp = 10\<rparr>"
        "\<lparr>action = ''HOLD'', input_button_number = 2, input_timestamp = 77\<rparr>"
        10 77 "\<lambda>p. int (length (fst p)) + snd p"]
  by (simp add: ButtonInput_eq_def)

subsection \<open>Event-triggered classification\<close>

lemma handle_event_in_range:
  assumes "0 \<le> key_number ev" and "key_number ev < int (length (buttons h))"
  shows "handle_event h ev =
     (case handle_event_button (buttons h ! nat (key_number ev)) ev of
        Inl e \<Rightarrow> Inl e
      | Inr (out, b') \<Rightarrow> Inr (out, h\<lparr>buttons := (buttons h)[nat (key_number ev) := b']\<rparr>))"
  using assms by (simp add: handle_event_def button_index_def)

text \<open>
  Claim C1. For every button and every release event, the release handler clears
  \<open>is_pressed\<close> and, with \<open>held\<close> the tick difference between the event and the start
  of the press: below the threshold with multi-press disabled it emits \<^verbatim>\<open>SHORT_PRESS\<close>
  at the event's timestamp and resets \<open>press_count\<close> and \<open>last_press_time\<close>; below the
  threshold with multi-press enabled and \<open>press_count\<close> at the cap it emits the
  normalized multi-press action of that count and resets both; below the threshold
  otherwise it emits nothing and leaves both as they are; at or above the threshold it
  emits \<^verbatim>\<open>LONG_PRESS\<close>, clears \<open>is_holding\<close> and resets both. The cases are read in
  this order, as an if/else-if chain, and the cap is at least 1, as the data model of the
  configuration requires.
\<close>

theorem release_event_classification:
  assumes "\<not> pressed ev" and "1 \<le> max_multi_press b"
  shows "handle_event_button b ev =
     (if timestamp_diff (timestamp ev) (press_start_time b) < long_press_threshold b then
        if \<not> enable_multi_press b then
          Inr (Some \<lparr>action = ''SHORT_PRESS'', input_button_number = key_number ev,
                     input_timestamp = timestamp ev\<rparr>,
               b\<lparr>is_pressed := False, last_press_time := None, press_count := 0\<rparr>)
        else if press_count b = max_multi_press b then
          Inr (Some \<lparr>action = normalized_multi_press (press_count b),
                     input_button_number = key_number ev, input_timestamp = timestamp ev\<rparr>,
               b\<lparr>is_pressed := False, last_press_time := None, press_count := 0\<rparr>)
        else Inr (None, b\<lparr>is_pressed := False\<rparr>)
      else
        Inr (Some \<lparr>action = ''LONG_PRESS'', input_button_number = key_number ev,
                   input_timestamp = timestamp ev\<rparr>,
             b\<lparr>is_pressed := False, is_holding := False, last_press_time := None,
               press_count := 0\<rparr>))"
  using assms
  by (simp add: handle_event_button_def Let_def ButtonInput_init_names
      ButtonInput_init_multi_press del: append.simps)

theorem release_event_classification_witness:
  "\<not> pressed \<lparr>key_number = 0, pressed = False, timestamp = 400\<rparr>
   \<and> 1 \<le> max_multi_press example_button
   \<and> handle_event_button example_button \<lparr>key_number = 0, pressed = False, timestamp = 400\<rparr> =
       Inr (Some \<lparr>action = ''2_MULTI_PRESS'', input_button_number = 0, input_timestamp = 400\<rparr>,
            example_button\<lparr>is_pressed := False, last_press_time := None, press_count := 0\<rparr>)"
  using release_event_classification
    [of "\<lparr>key_number = 0, pressed = False, timestamp = 400\<rparr>" example_button]
  by (simp add: example_button_def timestamp_diff_mod normalized_multi_press_def str_int_small)

text \<open>
  Claim C5. For every button and every press event, the press handler sets \<open>is_pressed\<close>,
  sets \<open>press_start_time\<close> to the event's timestamp, sets \<open>last_press_time\<close> to it
  exactly when \<open>press_count\<close> is below the cap before the increment (and leaves it as it
  is otherwise), adds 1 to \<open>press_count\<close> and emits nothing.
\<close>

theorem press_event_effect:
  assumes "pressed ev"
  shows "handle_event_button b ev =
     Inr (None,
          b\<lparr>is_pressed := True, press_start_time := timestamp ev,
            last_press_time :=
              (if press_count b < max_multi_press b then Some (timestamp ev) else last_press_time b),
            press_count := press_count b + 1\<rparr>)"
  using assms by (simp add: handle_event_button_def Let_def)

theorem press_event_effect_witness:
  "pressed \<lparr>key_number = 0, pressed = True, timestamp = 700\<rparr>
   \<and> handle_event_button example_button \<lparr>key_number = 0, pressed = True, timestamp = 700\<rparr> =
       Inr (None, example_button\<lparr>press_start_time := 700, press_count := 3\<rparr>)"
  using press_event_effect
    [of "\<lparr>key_number = 0, pressed = True, timestamp = 700\<rparr>" example_button]
  by (simp add: example_button_def)

subsection \<open>Time-triggered classification\<close>

lemma is_held_fires_pressed: "is_held b now = (True, b') \<Longrightarrow> is_pressed b' \<and> is_holding b'"
  by (auto simp: is_held_def split: if_splits)

lemma is_held_holding: "is_holding b \<Longrightarrow> is_held b now = (False, b)"
  by (simp add: is_held_def)

lemma check_timeout_pressed: "is_pressed b \<Longrightarrow> check_multi_press_timeout b now = Inr (None, b)"
  by (simp add: check_multi_press_timeout_def)

lemma report_timeout_pressed: "is_pressed b \<Longrightarrow> report_timeout now b inputs = Inr (inputs, b)"
  by (simp add: report_timeout_def check_timeout_pressed)

text \<open>
  Claim C2, as stated, at the specification's scenario (interval 200, threshold 1000,
  press at tick 0, release at tick 150): the claim has the poll at tick 349 emit nothing.
  The interval runs from the press, whose timestamp is what \<open>last_press_time\<close> holds, so
  the poll at tick 349 already emits \<^verbatim>\<open>SHORT_PRESS\<close>.
\<close>

theorem poll_349_emits_short_press:
  "run_button 0 spec_config [press_at 0, release_at 150, Poll 349] =
     Inr ([\<lparr>action = ''SHORT_PRESS'', input_button_number = 0, input_timestamp = 349\<rparr>],
          \<lparr>button_number = 0, enable_multi_press = True, long_press_threshold = 1000,
           max_multi_press = 2, multi_press_interval = 200, last_press_time = None,
           press_count = 0, press_start_time = 0, is_holding = False, is_pressed = False\<rparr>)"
  by code_simp

lemma poll_351:
  "run_button 0 spec_config [press_at 0, release_at 150, Poll 351] =
     Inr ([\<lparr>action = ''SHORT_PRESS'', input_button_number = 0, input_timestamp = 351\<rparr>],
          \<lparr>button_number = 0, enable_multi_press = True, long_press_threshold = 1000,
           max_multi_press = 2, multi_press_interval = 200, last_press_time = None,
           press_count = 0, press_start_time = 0, is_holding = False, is_pressed = False\<rparr>)"
  by code_simp

lemma poll_201:
  "run_button 0 spec_config [press_at 0, release_at 150, Poll 201] =
     Inr ([\<lparr>action = ''SHORT_PRESS'', input_button_number = 0, input_timestamp = 201\<rparr>],
          \<lparr>button_number = 0, enable_multi_press = True, long_press_threshold = 1000,
           max_multi_press = 2, multi_press_interval = 200, last_press_time = None,
           press_count = 0, press_start_time = 0, is_holding = False, is_pressed = False\<rparr>)"
  by code_simp

lemma poll_200:
  "run_button 0 spec_config [press_at 0, release_at 150, Poll 200] =
     Inr ([],
          \<lparr>button_number = 0, enable_multi_press = True, long_press_threshold = 1000,
           max_multi_press = 2, multi_press_interval = 200, last_press_time = Some 0,
           press_count = 1, press_start_time = 0, is_holding = False, is_pressed = False\<rparr>)"
  by code_simp

text \<open>
  Claim C2, amended. For every button whose pending count has its reference time (the
  invariant of the data model) and every poll time, the timeout check emits the action of
  \<open>press_count\<close> (count 1 being \<^verbatim>\<open>SHORT_PRESS\<close>) and resets \<open>press_count\<close> and
  \<open>last_press_time\<close> exactly when \<open>press_count\<close> is positive, the button is not pressed
  and the tick difference to \<open>last_press_time\<close> exceeds the interval; otherwise it leaves
  the state as it is and emits nothing. \<open>last_press_time\<close> is the timestamp of the press:
  after a press at tick 0 released at tick 150, with interval 200, the poll at tick 351
  emits \<^verbatim>\<open>SHORT_PRESS\<close>, the poll at tick 200 emits nothing and the poll at tick 201
  emits \<^verbatim>\<open>SHORT_PRESS\<close>.
\<close>

theorem multi_press_timeout_report:
  assumes "0 < press_count b \<longrightarrow> last_press_time b \<noteq> None"
  shows "report_timeout now b inputs =
       (if 0 < press_count b \<and> \<not> is_pressed b
           \<and> (case last_press_time b of None \<Rightarrow> False
               | Some t \<Rightarrow> multi_press_interval b < timestamp_diff now t)
        then Inr (set_add \<lparr>action = normalized_multi_press (press_count b),
                           input_button_number = button_number b, input_timestamp = now\<rparr> inputs,
                  b\<lparr>last_press_time := None, press_count := 0\<rparr>)
        else Inr (inputs, b))
     \<and> run_button 0 spec_config [press_at 0, release_at 150, Poll 351] =
         Inr ([\<lparr>action = ''SHORT_PRESS'', input_button_number = 0, input_timestamp = 351\<rparr>],
              \<lparr>button_number = 0, enable_multi_press = True, long_press_threshold = 1000,
               max_multi_press = 2, multi_press_interval = 200, last_press_time = None,
               press_count = 0, press_start_time = 0, is_holding = False, is_pressed = False\<rparr>)
     \<and> run_button 0 spec_config [press_at 0, release_at 150, Poll 200] =
         Inr ([],
              \<lparr>button_number = 0, enable_multi_press = True, long_press_threshold = 1000,
               max_multi_press = 2, multi_press_interval = 200, last_press_time = Some 0,
               press_count = 1, press_start_time = 0, is_holding = False, is_pressed = False\<rparr>)
     \<and> run_button 0 spec_config [press_at 0, release_at 150, Poll 201] =
         Inr ([\<lparr>action = ''SHORT_PRESS'', input_button_number = 0, input_timestamp = 201\<rparr>],
              \<lparr>button_number = 0, enable_multi_press = True, long_press_threshold = 1000,
               max_multi_press = 2, multi_press_interval = 200, last_press_time = None,
               press_count = 0, press_start_time = 0, is_holding = False, is_pressed = False\<rparr>)"
proof -
  have "report_timeout now b inputs =
       (if 0 < press_count b \<and> \<not> is_pressed b
           \<and> (case last_press_time b of None \<Rightarrow> False
               | Some t \<Rightarrow> multi_press_interval b < timestamp_diff now t)
        then Inr (set_add \<lparr>action = normalized_multi_press (press_count b),
                           input_button_number = button_number b, input_timestamp = now\<rparr> inputs,
                  b\<lparr>last_press_time := None, press_count := 0\<rparr>)
        else Inr (inputs, b))"
    using assms
    by (auto simp: report_timeout_def check_multi_press_timeout_def ButtonInput_init_multi_press
        split: option.splits simp del: append.simps)
  then show ?thesis
    by (simp only: poll_351 poll_200 poll_201 simp_thms)
qed

theorem multi_press_timeout_report_witness:
  "press_count (example_button\<lparr>press_count := 1, is_pressed := False\<rparr>) = 1
   \<and> last_press_time (example_button\<lparr>press_count := 1, is_pressed := False\<rparr>) = Some 300
   \<and> report_timeout 501 (example_button\<lparr>press_count := 1, is_pressed := False\<rparr>) [] =
       Inr ([\<lparr>action = ''SHORT_PRESS'', input_button_number = 0, input_timestamp = 501\<rparr>],
            example_button\<lparr>press_count := 0, is_pressed := False, last_press_time := None\<rparr>)"
  using multi_press_timeout_report
    [of "example_button\<lparr>press_count := 1, is_pressed := False\<rparr>" 501 "[]"]
  by (simp add: example_button_def timestamp_diff_mod normalized_multi_press_def set_add_def)

text \<open>
  Claim C10. For every button, every poll time and every result set, the loop body of
  the time-triggered phase (hold check, and the timeout check only when the hold check
  did not fire) gives the same result set and the same final state as the hold check
  followed by the timeout check in every case: when the hold check fires the button is
  pressed, and the timeout check does nothing on a pressed button.
\<close>

theorem hold_else_timeout_is_sequence:
  "handle_button now b inputs = handle_button_seq now b inputs"
proof (cases "is_held b now")
  case (Pair fired b')
  show ?thesis
  proof (cases fired)
    case True
    with Pair have "is_pressed b'" by (simp add: is_held_fires_pressed)
    then show ?thesis
      using Pair True
      by (simp add: handle_button_def handle_button_seq_def report_hold_def ButtonInput_init_names
          report_timeout_pressed)
  next
    case False
    with Pair show ?thesis
      by (simp add: handle_button_def handle_button_seq_def report_hold_def)
  qed
qed

subsection \<open>The loop of update\<close>

lemma handle_event_queue:
  "handle_event h ev = Inr (out, h') \<Longrightarrow> event_queue h' = event_queue h"
  by (auto simp: handle_event_def split: sum.splits prod.splits)

lemma handle_buttons_queue:
  "handle_buttons now h = Inr (inputs, h') \<Longrightarrow> event_queue h' = event_queue h"
  by (auto simp: handle_buttons_def split: sum.splits prod.splits)

lemma drain_returns_without_arrivals:
  "length (event_queue h) = n \<Longrightarrow> \<exists>r. drain no_arrivals 0 k h inputs = Some r"
proof (induction n arbitrary: h k inputs)
  case 0
  then show ?case by (subst drain.simps) simp
next
  case (Suc n)
  then obtain ev rest where q: "event_queue h = ev # rest" and len: "length rest = n"
    by (cases "event_queue h") auto
  show ?case
  proof (cases "handle_event (h\<lparr>event_queue := rest\<rparr>) ev")
    case (Inl e)
    with q show ?thesis by (subst drain.simps) simp
  next
    case (Inr p)
    obtain out h' where p: "p = (out, h')" by (cases p)
    with Inr have q': "event_queue h' = rest"
      using handle_event_queue [of "h\<lparr>event_queue := rest\<rparr>" ev out h'] by simp
    let ?h = "h'\<lparr>event_queue := event_queue h' @ no_arrivals k\<rparr>"
    let ?ins = "case out of None \<Rightarrow> inputs | Some x \<Rightarrow> set_add x inputs"
    have "length (event_queue ?h) = n" using q' len by (simp add: no_arrivals_def)
    from Suc.IH [OF this, of "Suc k" ?ins]
    obtain r where r: "drain no_arrivals 0 (Suc k) ?h ?ins = Some r" by blast
    have "drain no_arrivals 0 k h inputs = Some r"
      using q Inr p r by (subst drain.simps) simp
    then show ?thesis by blast
  qed
qed

lemma drain_drained_all:
  assumes "drain arrivals i k h inputs = Some r"
  shows "i = 0 \<longrightarrow> drained_all arrivals k h r"
proof (rule drain.raw_induct
    [where P = "\<lambda>arrivals i k h inputs r. i = 0 \<longrightarrow> drained_all arrivals k h r", OF _ assms])
  fix drain' arrivals i k h inputs r
  assume IH: "\<And>arrivals i k h inputs r. drain' arrivals i k h inputs = Some r
                \<Longrightarrow> i = 0 \<longrightarrow> drained_all arrivals k h r"
    and step: "(if i < int (length (event_queue h))
      then case event_queue h of [] \<Rightarrow> Some (Inl IndexError)
           | ev # rest \<Rightarrow>
               case handle_event (h\<lparr>event_queue := rest\<rparr>) ev of
               Inl e \<Rightarrow> Some (Inl e)
               | Inr (out, h') \<Rightarrow>
                   drain' arrivals i (Suc k)
                    (h'\<lparr>event_queue := event_queue h' @ arrivals k\<rparr>)
                    (case out of None \<Rightarrow> inputs | Some x \<Rightarrow> set_add x inputs)
      else Some (Inr (inputs, h, k))) = Some r"
  show "i = 0 \<longrightarrow> drained_all arrivals k h r"
  proof
    assume i0: "i = 0"
    show "drained_all arrivals k h r"
    proof (cases "event_queue h")
      case Nil
      with step i0 show ?thesis by (auto simp: drained_all_def)
    next
      case (Cons ev rest)
      show ?thesis
      proof (cases "handle_event (h\<lparr>event_queue := rest\<rparr>) ev")
        case (Inl e)
        with step i0 Cons show ?thesis by (auto simp: drained_all_def)
      next
        case (Inr p)
        obtain out h1 where p: "p = (out, h1)" by (cases p)
        with Inr have q': "event_queue h1 = rest"
          using handle_event_queue [of "h\<lparr>event_queue := rest\<rparr>" ev out h1] by simp
        let ?h = "h1\<lparr>event_queue := event_queue h1 @ arrivals k\<rparr>"
        let ?ins = "case out of None \<Rightarrow> inputs | Some x \<Rightarrow> set_add x inputs"
        from step Cons Inr p i0 have d: "drain' arrivals i (Suc k) ?h ?ins = Some r" by simp
        from IH [OF d] i0 have ih: "drained_all arrivals (Suc k) ?h r" by simp
        show ?thesis
        proof (cases r)
          case (Inl e)
          then show ?thesis by (simp add: drained_all_def)
        next
          case (Inr res)
          obtain ins h' k' where res: "res = (ins, h', k')" by (cases res)
          from ih Inr res have le: "Suc k \<le> k'"
            and cnt: "k' = Suc k + length (event_queue ?h) + (\<Sum>j = Suc k..<k'. length (arrivals j))"
            and emp: "event_queue h' = []"
            by (auto simp: drained_all_def)
          have "(\<Sum>j = k..<k'. length (arrivals j)) =
                  length (arrivals k) + (\<Sum>j = Suc k..<k'. length (arrivals j))"
            using le by (simp add: sum.atLeast_Suc_lessThan)
          with le cnt emp q' Cons Inr res show ?thesis
            by (simp add: drained_all_def)
        qed
      qed
    qed
  qed
qed

text \<open>
  Claim C8, as stated: the events one poll drains are bounded by the queue length at the
  start of the drain. With one press queued and a release arriving during the first
  iteration, the poll consumes two events from a queue that held one.
\<close>

theorem update_consumes_late_arrival:
  "update late_release 10
     (example_handler\<lparr>event_queue := [\<lparr>key_number = 0, pressed = True, timestamp = 0\<rparr>]\<rparr>) =
     Some (Inr ([],
       \<lparr>buttons =
          [\<lparr>button_number = 0, enable_multi_press = True, long_press_threshold = 1000,
            max_multi_press = 2, multi_press_interval = 175, last_press_time = Some 0,
            press_count = 1, press_start_time = 0, is_holding = False, is_pressed = False\<rparr>],
        event_queue = []\<rparr>, 2))
   \<and> length (event_queue
        (example_handler\<lparr>event_queue := [\<lparr>key_number = 0, pressed = True, timestamp = 0\<rparr>]\<rparr>)) = 1"
  by code_simp

text \<open>
  Claim C8, amended. The loop of a poll reads the queue length anew before every
  iteration and stops only on an empty queue: a poll that returns has consumed the events
  queued at its start and all the events that arrived while it ran, \<open>n\<close> in all, and
  leaves the queue empty; when nothing arrives during the loop the poll returns, after as
  many iterations as the queue held at the start.
\<close>

theorem update_drains_until_empty:
  "(update arrivals now h = Some (Inr (inputs, h', n)) \<longrightarrow>
      n = length (event_queue h) + (\<Sum>j = 0..<n. length (arrivals j)) \<and> event_queue h' = [])
   \<and> (\<exists>r. update no_arrivals now h = Some r
          \<and> (case r of Inl e \<Rightarrow> True | Inr (ins, h'', m) \<Rightarrow> m = length (event_queue h)))"
proof
  show "update arrivals now h = Some (Inr (inputs, h', n)) \<longrightarrow>
      n = length (event_queue h) + (\<Sum>j = 0..<n. length (arrivals j)) \<and> event_queue h' = []"
  proof
    assume u: "update arrivals now h = Some (Inr (inputs, h', n))"
    then obtain ins1 h1 where hb: "handle_buttons now h = Inr (ins1, h1)"
      and d: "drain arrivals 0 0 h1 ins1 = Some (Inr (inputs, h', n))"
      by (auto simp: update_def split: sum.splits prod.splits)
    from drain_drained_all [OF d] have "drained_all arrivals 0 h1 (Inr (inputs, h', n))" by simp
    with handle_buttons_queue [OF hb]
    show "n = length (event_queue h) + (\<Sum>j = 0..<n. length (arrivals j)) \<and> event_queue h' = []"
      by (simp add: drained_all_def)
  qed
next
  show "\<exists>r. update no_arrivals now h = Some r
          \<and> (case r of Inl e \<Rightarrow> True | Inr (ins, h'', m) \<Rightarrow> m = length (event_queue h))"
  proof (cases "handle_buttons now h")
    case (Inl e)
    then show ?thesis by (simp add: update_def)
  next
    case (Inr p)
    obtain ins1 h1 where p: "p = (ins1, h1)" by (cases p)
    obtain r where r: "drain no_arrivals 0 0 h1 ins1 = Some r"
      using drain_returns_without_arrivals [of h1 "length (event_queue h1)" 0 ins1] by blast
    from drain_drained_all [OF r] have da: "drained_all no_arrivals 0 h1 r" by simp
    have q: "event_queue h1 = event_queue h" using handle_buttons_queue Inr p by simp
    have "case r of Inl e \<Rightarrow> True | Inr (ins, h'', m) \<Rightarrow> m = length (event_queue h)"
      using da q by (auto simp: drained_all_def no_arrivals_def split: sum.splits)
    with Inr p r show ?thesis by (simp add: update_def)
  qed
qed

theorem update_drains_until_empty_witness:
  "update late_release 10
     (example_handler\<lparr>event_queue := [\<lparr>key_number = 0, pressed = True, timestamp = 0\<rparr>]\<rparr>) =
     Some (Inr ([],
       \<lparr>buttons =
          [\<lparr>button_number = 0, enable_multi_press = True, long_press_threshold = 1000,
            max_multi_press = 2, multi_press_interval = 175, last_press_time = Some 0,
            press_count = 1, press_start_time = 0, is_holding = False, is_pressed = False\<rparr>],
        event_queue = []\<rparr>, 2))
   \<and> (2::nat) = length (event_queue
        (example_handler\<lparr>event_queue := [\<lparr>key_number = 0, pressed = True, timestamp = 0\<rparr>]\<rparr>))
         + (\<Sum>j = 0..<2. length (late_release j))"
proof -
  have u: "update late_release 10
     (example_handler\<lparr>event_queue := [\<lparr>key_number = 0, pressed = True, timestamp = 0\<rparr>]\<rparr>) =
     Some (Inr ([],
       \<lparr>buttons =
          [\<lparr>button_number = 0, enable_multi_press = True, long_press_threshold = 1000,
            max_multi_press = 2, multi_press_interval = 175, last_press_time = Some 0,
            press_count = 1, press_start_time = 0, is_holding = False, is_pressed = False\<rparr>],
        event_queue = []\<rparr>, 2))"
    by code_simp
  with update_drains_until_empty
    [of late_release 10
      "example_handler\<lparr>event_queue := [\<lparr>key_number = 0, pressed = True, timestamp = 0\<rparr>]\<rparr>"
      "[]" _ 2]
  show ?thesis by blast
qed

lemma drain_fed_never_returns:
  assumes fed: "\<And>j. arrivals j \<noteq> []" and q: "event_queue h \<noteq> []"
  shows "drain arrivals 0 k h inputs \<noteq> Some (Inr res)"
proof
  assume d: "drain arrivals 0 k h inputs = Some (Inr res)"
  obtain ins h' k' where res: "res = (ins, h', k')" by (cases res)
  from drain_drained_all [OF d] res have le: "k \<le> k'"
    and cnt: "k' = k + length (event_queue h) + (\<Sum>j = k..<k'. length (arrivals j))"
    by (auto simp: drained_all_def)
  have "(\<Sum>j = k..<k'. 1) \<le> (\<Sum>j = k..<k'. length (arrivals j))"
  proof (rule sum_mono)
    fix j
    show "1 \<le> length (arrivals j)" using fed [of j] by (cases "arrivals j") auto
  qed
  then have "k' - k \<le> (\<Sum>j = k..<k'. length (arrivals j))" by simp
  with cnt le have "length (event_queue h) = 0" by linarith
  with q show False by simp
qed

subsection \<open>Hold reports and the state invariant\<close>

lemma apply_op_count_has_time:
  assumes "1 \<le> max_multi_press b" and "count_has_time b" and "apply_op b x = Inr (out, b')"
  shows "count_has_time b' \<and> max_multi_press b' = max_multi_press b"
proof (cases x)
  case (Event ev)
  with assms show ?thesis
    by (auto simp: count_has_time_def handle_event_button_def Let_def
        split: if_splits sum.splits option.splits prod.splits)
next
  case (HoldCheck now)
  with assms show ?thesis
    by (auto simp: count_has_time_def report_hold_def is_held_def split: if_splits sum.splits)
next
  case (TimeoutCheck now)
  with assms show ?thesis
    by (auto simp: count_has_time_def report_timeout_def check_multi_press_timeout_def
        split: if_splits sum.splits option.splits prod.splits)
next
  case (Poll now)
  with assms show ?thesis
    by (auto simp: count_has_time_def handle_button_def report_timeout_def is_held_def
        check_multi_press_timeout_def split: if_splits sum.splits option.splits prod.splits)
qed

lemma run_ops_count_has_time:
  "1 \<le> max_multi_press b \<Longrightarrow> count_has_time b \<Longrightarrow> run_ops b xs = Inr (outs, b')
     \<Longrightarrow> count_has_time b'"
proof (induction xs arbitrary: b outs)
  case Nil
  then show ?case by simp
next
  case (Cons x xs)
  from Cons.prems(3) obtain out b1 outs1 where
    step: "apply_op b x = Inr (out, b1)" and rest: "run_ops b1 xs = Inr (outs1, b')"
    by (auto split: sum.splits prod.splits)
  from apply_op_count_has_time [OF Cons.prems(1,2) step]
  have "count_has_time b1" "1 \<le> max_multi_press b1" using Cons.prems(1) by auto
  then show ?case using Cons.IH rest by blast
qed

lemma reachable_count_has_time:
  assumes "1 \<le> cfg_max_multi_press config" and "run_button n config xs = Inr (outs, b)"
  shows "count_has_time b"
proof -
  from assms(2) obtain b0 where b0: "Button_init n config = Inr b0"
    and run: "run_ops b0 xs = Inr (outs, b)"
    by (auto simp: run_button_def split: sum.splits)
  from b0 assms(1) have "1 \<le> max_multi_press b0" "count_has_time b0"
    by (auto simp: Button_init_def count_has_time_def split: if_splits)
  then show ?thesis using run by (rule run_ops_count_has_time)
qed

text \<open>
  Claim C4. Every state reachable from the initial one satisfies: a positive
  \<open>press_count\<close> has its \<open>last_press_time\<close>, and \<open>is_holding\<close> implies \<open>is_pressed\<close>.
  The first half holds (\<open>reachable_count_has_time\<close>); the second does not. Only the
  long-press branch of the release handler clears \<open>is_holding\<close>: after a press at tick 0
  and a hold check at tick 1000, a release stamped 999 takes the short-press branch and
  leaves a button that is holding and not pressed.
\<close>

theorem holding_survives_short_release:
  "run_button 0 ButtonInitConfig_default [press_at 0, HoldCheck 1000, release_at 999] =
     Inr ([\<lparr>action = ''HOLD'', input_button_number = 0, input_timestamp = 1000\<rparr>],
          \<lparr>button_number = 0, enable_multi_press = True, long_press_threshold = 1000,
           max_multi_press = 2, multi_press_interval = 175, last_press_time = Some 0,
           press_count = 1, press_start_time = 0, is_holding = True, is_pressed = False\<rparr>)"
  by code_simp

text \<open>
  Claim C3. Every press that crosses the threshold during a poll has \<^verbatim>\<open>HOLD\<close> emitted
  exactly once, and a new press after the release has it emitted once again. In the
  application loop below the press at tick 0 is reported as held by the poll at tick
  1000, whose queue holds the release stamped 999; the release is classified as short and
  leaves \<open>is_holding\<close> set. The second press, at tick 2000, is still down at the polls
  of ticks 3000 and 3500, and neither of them emits \<^verbatim>\<open>HOLD\<close>.
\<close>

theorem second_press_never_reports_hold:
  "run_updates example_handler
     [(0, [\<lparr>key_number = 0, pressed = True, timestamp = 0\<rparr>]),
      (1000, [\<lparr>key_number = 0, pressed = False, timestamp = 999\<rparr>]),
      (1200, []),
      (2000, [\<lparr>key_number = 0, pressed = True, timestamp = 2000\<rparr>]),
      (3000, []),
      (3500, [])] =
     Some (Inr ([[],
                 [\<lparr>action = ''HOLD'', input_button_number = 0, input_timestamp = 1000\<rparr>],
                 [\<lparr>action = ''SHORT_PRESS'', input_button_number = 0, input_timestamp = 1200\<rparr>],
                 [], [], []],
       \<lparr>buttons =
          [\<lparr>button_number = 0, enable_multi_press = True, long_press_threshold = 1000,
            max_multi_press = 2, multi_press_interval = 175, last_press_time = Some 2000,
            press_count = 1, press_start_time = 2000, is_holding = True, is_pressed = True\<rparr>],
        event_queue = []\<rparr>))"
  by code_simp

lemma hold_reported_once_while_held:
  "is_held b now = (True, b') \<Longrightarrow> is_held b' now' = (False, b')"
  by (auto simp: is_held_def split: if_splits)

lemma long_release_clears_holding:
  assumes "\<not> pressed ev"
    and "long_press_threshold b \<le> timestamp_diff (timestamp ev) (press_start_time b)"
    and "handle_event_button b ev = Inr (out, b')"
  shows "\<not> is_holding b' \<and> \<not> is_pressed b'"
  using assms
  by (auto simp: handle_event_button_def Let_def ButtonInput_init_names split: if_splits)

lemma example_handler_init: "ButtonHandler_init [] 1 Map.empty = Inr example_handler"
  by code_simp

end
